theory Spec2Isabelle
  imports Main "HOL-Library.Word" "HOL-Library.Sublist"
begin

section \<open>The todo model (models/todo-model.js)\<close>

text \<open>
  The class \<^verbatim>\<open>TodoModel\<close> holds the list \<^verbatim>\<open>todos\<close>, the counter \<^verbatim>\<open>nextId\<close>,
  the array of \<^verbatim>\<open>listeners\<close> and a storage service. Each method is a function
  from the model before the call to its outcome: \<open>Inr\<close> of the model after the
  call when the call returns, \<open>Inl\<close> of the error and of the model the call has
  left behind when it raises.
\<close>

subsection \<open>JavaScript numbers\<close>

text \<open>
  The ids and the counter are numbers whose value is an integer. A number is a
  binary64 value: it has 53 significant bits, so the integers it can hold are
  those up to \<open>2 ^ 53\<close> in magnitude and, beyond, the multiples of the power
  of two \<open>ulp\<close> that keeps 53 bits. A sum is rounded to the nearest such
  value, and to the one with the even significand when two are equally near.
\<close>

function ulp :: "int \<Rightarrow> int" where
  "ulp a = (if a < 2 ^ 53 then 1 else 2 * ulp (a div 2))"
  by pat_completeness auto
termination
  by (relation "measure nat") auto

definition round_binary64 :: "int \<Rightarrow> int" where
  "round_binary64 x =
     (let a = \<bar>x\<bar>;
          u = ulp a;
          q = a div u;
          r = a mod u;
          q' = (if 2 * r < u then q
                else if u < 2 * r then q + 1
                else if even q then q else q + 1)
      in sgn x * (q' * u))"

text \<open>The new value of the counter in \<^verbatim>\<open>this.nextId++\<close>.\<close>

definition js_incr :: "int \<Rightarrow> int" where
  "js_incr n = round_binary64 (n + 1)"

subsection \<open>JavaScript values and strings\<close>

text \<open>A JavaScript string is a sequence of 16-bit code units.\<close>

type_synonym js_string = "16 word list"

text \<open>
  The characters \<^verbatim>\<open>String.prototype.trim\<close> strips: WhiteSpace and LineTerminator
  of ECMAScript (TAB, LF, VT, FF, CR, SP, NBSP, the space separators of Unicode,
  LS, PS and the byte order mark).
\<close>

definition is_white_space :: "16 word \<Rightarrow> bool" where
  "is_white_space c \<longleftrightarrow>
     c = 0x0009 \<or> c = 0x000A \<or> c = 0x000B \<or> c = 0x000C \<or> c = 0x000D \<or>
     c = 0x0020 \<or> c = 0x00A0 \<or> c = 0x1680 \<or> (0x2000 \<le> c \<and> c \<le> 0x200A) \<or>
     c = 0x2028 \<or> c = 0x2029 \<or> c = 0x202F \<or> c = 0x205F \<or> c = 0x3000 \<or>
     c = 0xFEFF"

definition trim :: "js_string \<Rightarrow> js_string" where
  "trim s = rev (dropWhile is_white_space (rev (dropWhile is_white_space s)))"

text \<open>A string literal of the source, all of whose characters are ASCII.\<close>

definition ascii :: "string \<Rightarrow> js_string" where
  "ascii s = map of_char s"

text \<open>
  The values a caller can pass for \<^verbatim>\<open>text\<close> and \<^verbatim>\<open>id\<close>. \<open>JObject\<close> is an
  object or array with no property \<^verbatim>\<open>trim\<close>, such as \<^verbatim>\<open>{}\<close> or \<^verbatim>\<open>[]\<close>.
\<close>

datatype js_value =
    JUndefined
  | JNull
  | JBool bool
  | JNum int
  | JStr js_string
  | JObject

text \<open>ToBoolean, which \<^verbatim>\<open>!text\<close> and \<^verbatim>\<open>todo && newText\<close> apply.\<close>

fun truthy :: "js_value \<Rightarrow> bool" where
  "truthy JUndefined = False"
| "truthy JNull = False"
| "truthy (JBool b) = b"
| "truthy (JNum n) = (n \<noteq> 0)"
| "truthy (JStr s) = (s \<noteq> [])"
| "truthy JObject = True"

text \<open>
  What a call can raise: the TypeError of the language (a method that is not
  there, a call of what is not a function), or whatever a listener throws;
  \<open>Thrown l\<close> is the value thrown by the listener \<open>l\<close>.
\<close>

datatype error = TypeError | Thrown nat

text \<open>
  The call \<^verbatim>\<open>v.trim()\<close>. Only a string has the method; on any other value the
  call raises a TypeError.
\<close>

fun js_trim :: "js_value \<Rightarrow> error + js_string" where
  "js_trim (JStr s) = Inr (trim s)"
| "js_trim v = Inl TypeError"

subsection \<open>The data\<close>

text \<open>
  One entry of \<^verbatim>\<open>todos\<close>: the object literal built in \<^verbatim>\<open>addTodo\<close>, with the
  fields \<^verbatim>\<open>id\<close>, \<^verbatim>\<open>text\<close>, \<^verbatim>\<open>completed\<close> and \<^verbatim>\<open>createdAt\<close>.
\<close>

record todo =
  todo_id :: int
  todo_text :: js_string
  completed :: bool
  createdAt :: js_string

text \<open>
  The storage service, seen from the model: a value saved under a key is what a
  later load of that key returns (\<^verbatim>\<open>StorageService.save\<close> and \<^verbatim>\<open>load\<close>, which
  serialize to JSON and parse it back, and which catch every error themselves).
\<close>

datatype stored = Items "todo list" | Number int

type_synonym storage_service = "string \<rightharpoonup> stored"

definition storage_save :: "string \<Rightarrow> stored \<Rightarrow> storage_service \<Rightarrow> storage_service" where
  "storage_save k d st = st(k \<mapsto> d)"

definition storage_load :: "string \<Rightarrow> stored \<Rightarrow> storage_service \<Rightarrow> stored" where
  "storage_load key defaultValue st =
     (case st key of None \<Rightarrow> defaultValue | Some item \<Rightarrow> item)"

text \<open>
  What \<^verbatim>\<open>subscribe\<close> is given and stores, by what happens when \<^verbatim>\<open>notify\<close>
  calls it: a function that returns, a function that throws, or a value that
  is not a function. The number names the listener. What a listener reads is
  its own business; a listener that calls the methods of the model from
  inside is not among these.
\<close>

datatype listener = Returns nat | Throws nat | NotCallable nat

text \<open>
  What a call does besides changing the model, in the order it happens: a write
  to the storage service, and the call of a subscribed listener.
\<close>

datatype effect = Saved string stored | Called nat

record todo_model =
  todos :: "todo list"
  nextId :: int
  listeners :: "listener list"
  storage :: storage_service
  effects :: "effect list"

type_synonym outcome = "(error \<times> todo_model) + todo_model"

text \<open>The model a call leaves behind, whether it returned or raised.\<close>

definition model_after :: "outcome \<Rightarrow> todo_model" where
  "model_after r = (case r of Inl (e, m) \<Rightarrow> m | Inr m \<Rightarrow> m)"

subsection \<open>The methods\<close>

text \<open>
  The constructor. The source takes whatever the two loads return; the model has
  a value only when they are a list of items and a number, \<open>None\<close> otherwise.
\<close>

definition TodoModel :: "storage_service \<Rightarrow> todo_model option" where
  "TodoModel storageService =
     (case (storage_load ''items'' (Items []) storageService,
            storage_load ''nextId'' (Number 1) storageService) of
        (Items ts, Number n) \<Rightarrow>
          Some \<lparr>todos = ts, nextId = n, listeners = [], storage = storageService,
                effects = []\<rparr>
      | _ \<Rightarrow> None)"

definition subscribe :: "listener \<Rightarrow> todo_model \<Rightarrow> todo_model" where
  "subscribe l m = m\<lparr>listeners := listeners m @ [l]\<rparr>"

text \<open>
  \<^verbatim>\<open>listeners.forEach(listener => listener())\<close>: the listeners are called in
  the order of subscription. The first one that throws, or that is not a
  function, ends the loop with its error, and the later ones are not called.
  The result is the calls made and the error, if any.
\<close>

fun call_all :: "listener list \<Rightarrow> effect list \<times> error option" where
  "call_all [] = ([], None)"
| "call_all (Returns l # ls) = (case call_all ls of (es, r) \<Rightarrow> (Called l # es, r))"
| "call_all (Throws l # ls) = ([Called l], Some (Thrown l))"
| "call_all (NotCallable l # ls) = ([], Some TypeError)"

definition notify :: "todo_model \<Rightarrow> outcome" where
  "notify m =
     (case call_all (listeners m) of
        (es, None) \<Rightarrow> Inr (m\<lparr>effects := effects m @ es\<rparr>)
      | (es, Some e) \<Rightarrow> Inl (e, m\<lparr>effects := effects m @ es\<rparr>))"

definition save :: "todo_model \<Rightarrow> todo_model" where
  "save m =
     m\<lparr>storage := storage_save ''nextId'' (Number (nextId m))
                   (storage_save ''items'' (Items (todos m)) (storage m)),
       effects := effects m @
                    [Saved ''items'' (Items (todos m)), Saved ''nextId'' (Number (nextId m))]\<rparr>"

text \<open>
  \<^verbatim>\<open>addTodo(text)\<close>; \<open>now\<close> is what \<^verbatim>\<open>new Date().toISOString()\<close> returns
  during the call.
\<close>

definition addTodo :: "js_value \<Rightarrow> js_string \<Rightarrow> todo_model \<Rightarrow> outcome" where
  "addTodo txt now m =
     (if \<not> truthy txt then Inr m
      else case js_trim txt of
        Inl e \<Rightarrow> Inl (e, m)
      | Inr trimmed \<Rightarrow>
          if trimmed = [] then Inr m
          else
            let todo = \<lparr>todo_id = nextId m, todo_text = trimmed, completed = False,
                        createdAt = now\<rparr>;
                m1 = m\<lparr>nextId := js_incr (nextId m)\<rparr>;
                m2 = m1\<lparr>todos := todos m1 @ [todo]\<rparr>
            in notify (save m2))"

text \<open>The test \<^verbatim>\<open>t.id === id\<close>: strict equality of the item's number with the argument.\<close>

definition has_id :: "js_value \<Rightarrow> todo \<Rightarrow> bool" where
  "has_id v t \<longleftrightarrow> JNum (todo_id t) = v"

text \<open>
  \<^verbatim>\<open>todos.find(...)\<close> returns the first item that passes the test, and the
  assignment to one of its fields changes that item where it stands in the list.
\<close>

fun modify_first :: "('a \<Rightarrow> bool) \<Rightarrow> ('a \<Rightarrow> 'a) \<Rightarrow> 'a list \<Rightarrow> 'a list" where
  "modify_first P f [] = []"
| "modify_first P f (x # xs) = (if P x then f x # xs else x # modify_first P f xs)"

definition toggleComplete :: "js_value \<Rightarrow> todo_model \<Rightarrow> outcome" where
  "toggleComplete v m =
     (case find (has_id v) (todos m) of
        None \<Rightarrow> Inr m
      | Some todo \<Rightarrow>
          notify (save (m\<lparr>todos :=
            modify_first (has_id v) (\<lambda>t. t\<lparr>completed := \<not> completed t\<rparr>) (todos m)\<rparr>)))"

definition deleteTodo :: "js_value \<Rightarrow> todo_model \<Rightarrow> outcome" where
  "deleteTodo v m = notify (save (m\<lparr>todos := filter (\<lambda>t. \<not> has_id v t) (todos m)\<rparr>))"

definition updateTodo :: "js_value \<Rightarrow> js_value \<Rightarrow> todo_model \<Rightarrow> outcome" where
  "updateTodo v newText m =
     (case find (has_id v) (todos m) of
        None \<Rightarrow> Inr m
      | Some todo \<Rightarrow>
          if \<not> truthy newText then Inr m
          else (case js_trim newText of
            Inl e \<Rightarrow> Inl (e, m)
          | Inr trimmed \<Rightarrow>
              if trimmed = [] then Inr m
              else notify (save (m\<lparr>todos :=
                     modify_first (has_id v) (\<lambda>t. t\<lparr>todo_text := trimmed\<rparr>) (todos m)\<rparr>))))"

definition clearCompleted :: "todo_model \<Rightarrow> outcome" where
  "clearCompleted m = notify (save (m\<lparr>todos := filter (\<lambda>t. \<not> completed t) (todos m)\<rparr>))"

definition clearAll :: "todo_model \<Rightarrow> outcome" where
  "clearAll m = notify (save (m\<lparr>todos := []\<rparr>))"

definition activeCount :: "todo_model \<Rightarrow> nat" where
  "activeCount m = length (filter (\<lambda>t. \<not> completed t) (todos m))"

definition completedCount :: "todo_model \<Rightarrow> nat" where
  "completedCount m = length (filter (\<lambda>t. completed t) (todos m))"

subsection \<open>Sequences of calls\<close>

datatype call =
    AddTodo js_value js_string
  | ToggleComplete js_value
  | DeleteTodo js_value
  | UpdateTodo js_value js_value
  | ClearCompleted
  | ClearAll
  | Subscribe listener

fun perform :: "call \<Rightarrow> todo_model \<Rightarrow> outcome" where
  "perform (AddTodo txt now) m = addTodo txt now m"
| "perform (ToggleComplete v) m = toggleComplete v m"
| "perform (DeleteTodo v) m = deleteTodo v m"
| "perform (UpdateTodo v newText) m = updateTodo v newText m"
| "perform ClearCompleted m = clearCompleted m"
| "perform ClearAll m = clearAll m"
| "perform (Subscribe l) m = Inr (subscribe l m)"

text \<open>
  The model after a call, from which the next call starts. A call of
  \<^verbatim>\<open>trim\<close> that raises does so before the first assignment of its method; a
  listener that raises does so after the list has been changed and saved.
\<close>

definition after :: "call \<Rightarrow> todo_model \<Rightarrow> todo_model" where
  "after c m = model_after (perform c m)"

fun run :: "call list \<Rightarrow> todo_model \<Rightarrow> todo_model" where
  "run [] m = m"
| "run (c # cs) m = run cs (after c m)"

text \<open>The model the constructor builds when nothing has been stored.\<close>

definition fresh :: todo_model where
  "fresh = \<lparr>todos = [], nextId = 1, listeners = [], storage = Map.empty, effects = []\<rparr>"

subsection \<open>Notions the properties are stated with\<close>

text \<open>A listener that is a function and returns when called.\<close>

fun returns :: "listener \<Rightarrow> bool" where
  "returns (Returns l) = True"
| "returns (Throws l) = False"
| "returns (NotCallable l) = False"

text \<open>
  \<open>m'\<close> is left by a call on \<open>m\<close> that ran \<^verbatim>\<open>this.save()\<close> and then
  \<^verbatim>\<open>this.notify()\<close>: the storage holds the items and the counter of \<open>m'\<close>, and
  the effects of \<open>m\<close> are followed by the two writes and by the calls of the
  listeners, which are one call of each listener, in the order of subscription,
  when every listener returns.
\<close>

definition persisted_and_notified :: "todo_model \<Rightarrow> todo_model \<Rightarrow> bool" where
  "persisted_and_notified m m' \<longleftrightarrow>
     storage m' ''items'' = Some (Items (todos m')) \<and>
     storage m' ''nextId'' = Some (Number (nextId m')) \<and>
     effects m' = effects m @
       [Saved ''items'' (Items (todos m')), Saved ''nextId'' (Number (nextId m'))] @
       fst (call_all (listeners m))"

text \<open>The ids in the list are pairwise different and all below the counter.\<close>

definition ids_fresh :: "todo_model \<Rightarrow> bool" where
  "ids_fresh m \<longleftrightarrow>
     distinct (map todo_id (todos m)) \<and> list_all (\<lambda>i. i < nextId m) (map todo_id (todos m))"

text \<open>The counter is in the range that a session that starts with a safe integer can reach.\<close>

definition counter_ok :: "todo_model \<Rightarrow> bool" where
  "counter_ok m \<longleftrightarrow> - (2 ^ 53) < nextId m \<and> nextId m \<le> 2 ^ 53"

text \<open>
  The ids handed out during the calls \<open>cs\<close> made on \<open>m\<close>: a call that leaves
  the list longer has appended an item, and the id of that item was issued by it.
\<close>

fun issued_ids :: "call list \<Rightarrow> todo_model \<Rightarrow> int list" where
  "issued_ids [] m = []"
| "issued_ids (c # cs) m =
     (if length (todos m) < length (todos (after c m))
      then [todo_id (last (todos (after c m)))] else []) @
     issued_ids cs (after c m)"

fun is_string :: "js_value \<Rightarrow> bool" where
  "is_string (JStr s) = True"
| "is_string v = False"

text \<open>The text argument of a call, if it has one, is a string or a falsy value.\<close>

fun texts_ok :: "call \<Rightarrow> bool" where
  "texts_ok (AddTodo txt now) = (is_string txt \<or> \<not> truthy txt)"
| "texts_ok (UpdateTodo v newText) = (is_string newText \<or> \<not> truthy newText)"
| "texts_ok c = True"

text \<open>
  A session used as the concrete case of the theorems below: it subscribes a
  listener, adds two items, completes the first, passes a number and a blank
  string to \<^verbatim>\<open>addTodo\<close>, clears the completed item, adds a third item,
  renames it and deletes an id that is not there.
\<close>

definition example_calls :: "call list" where
  "example_calls =
     [Subscribe (Returns 0),
      AddTodo (JStr (ascii ''Task 1'')) (ascii ''t1''),
      AddTodo (JStr (ascii '' Task 2 '')) (ascii ''t2''),
      ToggleComplete (JNum 1),
      AddTodo (JNum 5) (ascii ''t3''),
      AddTodo (JStr (ascii ''   '')) (ascii ''t4''),
      ClearCompleted,
      AddTodo (JStr (ascii ''Task 3'')) (ascii ''t5''),
      UpdateTodo (JNum 3) (JStr (ascii ''New'')),
      DeleteTodo (JNum 7)]"

definition example_model :: todo_model where
  "example_model = run example_calls fresh"

text \<open>
  A session that uses up the integers a number can count: it adds an item and
  clears the list, \<open>2 ^ 53 - 1\<close> times over, and then adds two items.
\<close>

definition add_a :: call where
  "add_a = AddTodo (JStr (ascii ''a'')) (ascii ''t'')"

definition overflow_calls :: "call list" where
  "overflow_calls = concat (replicate (2 ^ 53 - 1) [add_a, ClearAll]) @ [add_a, add_a]"

text \<open>A storage in which the counter \<open>2 ^ 53\<close> has been saved, and the model built from it.\<close>

definition stalled_storage :: storage_service where
  "stalled_storage = [''nextId'' \<mapsto> Number (2 ^ 53)]"

definition stalled_model :: todo_model where
  "stalled_model =
     \<lparr>todos = [], nextId = 2 ^ 53, listeners = [], storage = stalled_storage, effects = []\<rparr>"

section \<open>Auxiliary facts\<close>

subsection \<open>The counter\<close>

declare ulp.simps [simp del]

lemma ulp_small: "a < 2 ^ 53 \<Longrightarrow> ulp a = 1"
  by (simp add: ulp.simps[of a])

lemma round_binary64_small: "\<bar>x\<bar> < 2 ^ 53 \<Longrightarrow> round_binary64 x = x"
proof -
  assume "\<bar>x\<bar> < 2 ^ 53"
  then have "ulp \<bar>x\<bar> = 1" by (rule ulp_small)
  then have "round_binary64 x = sgn x * \<bar>x\<bar>" by (simp add: round_binary64_def)
  then show ?thesis by (simp add: mult_sgn_abs)
qed

lemma ulp_2_53: "ulp (2 ^ 53) = 2"
  by (subst ulp.simps) (simp add: ulp_small)

lemma ulp_2_53_1: "ulp (2 ^ 53 + 1) = 2"
  by (subst ulp.simps) (simp add: ulp_small)

lemma round_binary64_2_53: "round_binary64 (2 ^ 53) = 2 ^ 53"
  and round_binary64_2_53_1: "round_binary64 (2 ^ 53 + 1) = 2 ^ 53"
  using ulp_2_53 ulp_2_53_1 by (simp_all add: round_binary64_def)

lemma js_incr_exact: "\<bar>n\<bar> < 2 ^ 53 \<Longrightarrow> js_incr n = n + 1"
proof -
  assume a: "\<bar>n\<bar> < 2 ^ 53"
  show ?thesis
  proof (cases "n + 1 = 2 ^ 53")
    case True
    with round_binary64_2_53 show ?thesis by (simp add: js_incr_def)
  next
    case False
    with a have "\<bar>n + 1\<bar> < 2 ^ 53" by simp
    then show ?thesis by (simp add: js_incr_def round_binary64_small)
  qed
qed

lemma js_incr_stalls: "js_incr (2 ^ 53) = 2 ^ 53"
  using round_binary64_2_53_1 by (simp add: js_incr_def)

lemma js_incr_range:
  assumes "- (2 ^ 53) < n" and "n \<le> 2 ^ 53"
  shows "n \<le> js_incr n \<and> js_incr n \<le> 2 ^ 53"
proof (cases "n = 2 ^ 53")
  case True
  with js_incr_stalls show ?thesis by simp
next
  case False
  with assms have "\<bar>n\<bar> < 2 ^ 53" by simp
  from js_incr_exact[OF this] assms False show ?thesis by simp
qed

subsection \<open>Listeners\<close>

lemma call_all_returns: "list_all returns ls \<longleftrightarrow> snd (call_all ls) = None"
  by (induction ls rule: call_all.induct) (auto split: prod.splits)

lemma call_all_Returns: "call_all (map Returns ns) = (map Called ns, None)"
  by (induction ns) simp_all

lemma model_after_simps [simp]: "model_after (Inr m) = m" "model_after (Inl (e, m)) = m"
  by (simp_all add: model_after_def)

lemma notify_after [simp]:
  "todos (model_after (notify m)) = todos m"
  "nextId (model_after (notify m)) = nextId m"
  "listeners (model_after (notify m)) = listeners m"
  "storage (model_after (notify m)) = storage m"
  "effects (model_after (notify m)) = effects m @ fst (call_all (listeners m))"
  by (simp_all add: notify_def split: prod.splits option.splits)

lemma notify_Inr_iff:
  "notify m = Inr m' \<longleftrightarrow> list_all returns (listeners m) \<and> m' = model_after (notify m)"
  by (auto simp: notify_def call_all_returns split: prod.splits option.splits)

lemma notify_returns_iff:
  "notify m = Inr (model_after (notify m)) \<longleftrightarrow> list_all returns (listeners m)"
  by (simp add: notify_Inr_iff)

subsection \<open>Saving\<close>

lemmas eval_defs =
  after_def addTodo_def toggleComplete_def deleteTodo_def updateTodo_def clearCompleted_def
  clearAll_def subscribe_def notify_def save_def storage_save_def has_id_def trim_def
  ascii_def is_white_space_def fresh_def activeCount_def completedCount_def Let_def
  js_incr_exact

lemma trim_Nil [simp]: "trim [] = []"
  by (simp add: trim_def)

lemma save_fields [simp]:
  "todos (save m) = todos m" "nextId (save m) = nextId m" "listeners (save m) = listeners m"
  by (simp_all add: save_def)

lemma persisted_and_notifiedI:
  "listeners m1 = listeners m \<Longrightarrow> effects m1 = effects m \<Longrightarrow>
     persisted_and_notified m (model_after (notify (save m1)))"
  by (simp add: persisted_and_notified_def) (simp add: save_def storage_save_def)

lemma effects_grow: "persisted_and_notified m m' \<Longrightarrow> effects m' \<noteq> effects m"
  by (simp add: persisted_and_notified_def)

lemma has_id_completed [simp]: "has_id v (t\<lparr>completed := b\<rparr>) = has_id v t"
  by (simp add: has_id_def)

lemma has_id_text [simp]: "has_id v (t\<lparr>todo_text := s\<rparr>) = has_id v t"
  by (simp add: has_id_def)

lemma has_id_same: "has_id v x \<and> has_id v y \<longrightarrow> todo_id x = todo_id y"
  by (auto simp: has_id_def)

subsection \<open>The first item that passes a test\<close>

lemma find_Some_ex: "(\<exists>x \<in> set xs. P x) \<Longrightarrow> \<exists>t. find P xs = Some t"
  by (cases "find P xs") (auto simp: find_None_iff)

lemma length_modify_first [simp]: "length (modify_first P f xs) = length xs"
  by (induction xs) auto

lemma map_modify_first:
  "(\<And>x. g (f x) = g x) \<Longrightarrow> map g (modify_first P f xs) = map g xs"
  by (induction xs) auto

lemma find_None_modify_first:
  "find P xs = None \<Longrightarrow> modify_first P f xs = xs"
  by (induction xs) (auto split: if_splits)

lemma modify_first_nth_other:
  "k < length xs \<Longrightarrow> \<not> P (xs ! k) \<Longrightarrow> modify_first P f xs ! k = xs ! k"
  by (induction xs arbitrary: k) (auto simp: nth_Cons split: nat.splits)

lemma modify_first_nth_cases:
  "k < length xs \<Longrightarrow> modify_first P f xs ! k = xs ! k \<or> modify_first P f xs ! k = f (xs ! k)"
  by (induction xs arbitrary: k) (auto simp: nth_Cons split: nat.splits)

lemma modify_first_frame:
  assumes "k < length xs" and "\<And>x. g (f x) = g x"
  shows "g (modify_first P f xs ! k) = g (xs ! k)"
  using modify_first_nth_cases[OF assms(1), of P f] assms(2) by auto

lemma modify_first_twice:
  "(\<And>x. P (f x) = P x) \<Longrightarrow> (\<And>x. f (f x) = x) \<Longrightarrow>
     modify_first P f (modify_first P f xs) = xs"
  by (induction xs) auto

text \<open>The item \<open>find\<close> returns stands at the least position that passes the test.\<close>

lemma modify_first_list_update:
  "find P xs = Some t \<Longrightarrow>
     \<exists>k < length xs. xs ! k = t \<and> P t \<and> (\<forall>j < k. \<not> P (xs ! j)) \<and>
        modify_first P f xs = xs[k := f t]"
proof (induction xs)
  case Nil
  then show ?case by simp
next
  case (Cons x xs)
  show ?case
  proof (cases "P x")
    case True
    with Cons.prems have "x = t" by simp
    with True show ?thesis by (intro exI[of _ 0]) simp
  next
    case False
    with Cons.prems have "find P xs = Some t" by simp
    from Cons.IH[OF this] obtain k where k: "k < length xs" "xs ! k = t" "P t"
      "\<forall>j < k. \<not> P (xs ! j)" "modify_first P f xs = xs[k := f t]" by blast
    have "\<forall>j < Suc k. \<not> P ((x # xs) ! j)"
      using False k(4) by (auto simp: nth_Cons split: nat.splits)
    with k False show ?thesis by (intro exI[of _ "Suc k"]) simp
  qed
qed

lemma first_match_pos:
  assumes k: "k < length xs" "P (xs ! k)"
    and u: "distinct (map g xs) \<and> (\<forall>x y. P x \<and> P y \<longrightarrow> g x = g y) \<or> (\<forall>j < k. \<not> P (xs ! j))"
  shows "modify_first P f xs = xs[k := f (xs ! k)]"
proof -
  from k have "\<exists>x \<in> set xs. P x" by (metis nth_mem)
  then obtain t where t: "find P xs = Some t" using find_Some_ex[of xs P] by blast
  from modify_first_list_update[OF t, of f] obtain i where i: "i < length xs" "xs ! i = t"
    "P t" "\<forall>j < i. \<not> P (xs ! j)" "modify_first P f xs = xs[i := f t]" by blast
  have "i = k"
  proof -
    from i(4) k(2) have le: "i \<le> k" by (metis not_le_imp_less)
    from u show ?thesis
    proof
      assume d: "distinct (map g xs) \<and> (\<forall>x y. P x \<and> P y \<longrightarrow> g x = g y)"
      with i(2,3) k(2) have "g (xs ! i) = g (xs ! k)" by blast
      then have "map g xs ! i = map g xs ! k" using i(1) k(1) by simp
      with d i(1) k(1) nth_eq_iff_index_eq[of "map g xs" i k] show ?thesis by simp
    next
      assume "\<forall>j < k. \<not> P (xs ! j)"
      with i(2,3) have "k \<le> i" by (metis not_le_imp_less)
      with le show ?thesis by simp
    qed
  qed
  with i(2,5) show ?thesis by simp
qed

text \<open>Filtering out the key of one position, when the keys are pairwise different.\<close>

lemma filter_other_ids:
  "distinct (map g xs) \<Longrightarrow> k < length xs \<Longrightarrow>
     filter (\<lambda>x. g x \<noteq> g (xs ! k)) xs = take k xs @ drop (Suc k) xs"
proof (induction xs arbitrary: k)
  case Nil
  then show ?case by simp
next
  case (Cons x xs)
  show ?case
  proof (cases k)
    case 0
    from Cons.prems(1) have "g x \<notin> g ` set xs" by simp
    then have "\<forall>y \<in> set xs. g y \<noteq> g x" by (metis imageI)
    then have "filter (\<lambda>y. g y \<noteq> g x) xs = xs" by (simp add: filter_id_conv)
    with 0 show ?thesis by simp
  next
    case (Suc j)
    with Cons.prems have j: "j < length xs" and d: "distinct (map g xs)" by simp_all
    from Cons.prems(1) have "g x \<notin> g ` set xs" by simp
    with j have "g x \<noteq> g (xs ! j)" by (metis imageI nth_mem)
    with Cons.IH[OF d j] Suc show ?thesis by simp
  qed
qed

subsection \<open>What each method does to the items and the counter\<close>

lemma TodoModel_empty: "TodoModel Map.empty = Some fresh"
  by (simp add: TodoModel_def storage_load_def fresh_def)

lemma toggleComplete_todos:
  "todos (model_after (toggleComplete v m)) =
     modify_first (has_id v) (\<lambda>t. t\<lparr>completed := \<not> completed t\<rparr>) (todos m)"
  by (cases "find (has_id v) (todos m)")
     (simp_all add: toggleComplete_def find_None_modify_first)

lemma toggleComplete_ids:
  "map todo_id (todos (model_after (toggleComplete v m))) = map todo_id (todos m)"
  "nextId (model_after (toggleComplete v m)) = nextId m"
  by (simp_all add: toggleComplete_def map_modify_first split: option.splits)

lemma updateTodo_todos:
  "todos (model_after (updateTodo v newText m)) = todos m \<or>
   (\<exists>s. todos (model_after (updateTodo v newText m)) =
      modify_first (has_id v) (\<lambda>t. t\<lparr>todo_text := s\<rparr>) (todos m))"
  by (auto simp: updateTodo_def split: option.splits sum.splits)

lemma updateTodo_ids:
  "map todo_id (todos (model_after (updateTodo v newText m))) = map todo_id (todos m)"
  "nextId (model_after (updateTodo v newText m)) = nextId m"
  by (auto simp: updateTodo_def map_modify_first split: option.splits sum.splits)

lemma updateTodo_found:
  assumes t: "find (has_id v) (todos m) = Some t" and ne: "trim newText \<noteq> []"
  shows "updateTodo v (JStr newText) m =
     notify (save (m\<lparr>todos :=
       modify_first (has_id v) (\<lambda>t. t\<lparr>todo_text := trim newText\<rparr>) (todos m)\<rparr>))"
proof -
  from ne have "newText \<noteq> []" by auto
  with t ne show ?thesis by (simp add: updateTodo_def)
qed

lemma updateTodo_not_found:
  "find (has_id v) (todos m) = None \<Longrightarrow> updateTodo v newText m = Inr m"
  by (simp add: updateTodo_def)

lemma updateTodo_blank:
  "trim newText = [] \<Longrightarrow> updateTodo v (JStr newText) m = Inr m"
  by (cases "find (has_id v) (todos m)") (simp_all add: updateTodo_def)

lemma addTodo_added:
  assumes "trim s \<noteq> []"
  shows "addTodo (JStr s) now m =
      notify (save (m\<lparr>nextId := js_incr (nextId m),
        todos := todos m @ [\<lparr>todo_id = nextId m, todo_text = trim s,
                              completed = False, createdAt = now\<rparr>]\<rparr>))"
proof -
  from assms have "s \<noteq> []" by auto
  with assms show ?thesis by (simp add: addTodo_def Let_def)
qed

lemma addTodo_cases:
  "(todos (model_after (addTodo txt now m)) = todos m \<and>
    nextId (model_after (addTodo txt now m)) = nextId m) \<or>
   (\<exists>t. todos (model_after (addTodo txt now m)) = todos m @ [t] \<and> todo_id t = nextId m \<and>
        nextId (model_after (addTodo txt now m)) = js_incr (nextId m))"
  by (auto simp: addTodo_def Let_def split: sum.splits)

lemma deleteTodo_at:
  assumes "distinct (map todo_id (todos m))" and "k < length (todos m)"
    and "has_id v (todos m ! k)"
  shows "filter (\<lambda>t. \<not> has_id v t) (todos m) = take k (todos m) @ drop (Suc k) (todos m)"
proof -
  from assms(3) have "v = JNum (todo_id (todos m ! k))" by (simp add: has_id_def)
  then have "(\<lambda>t. \<not> has_id v t) = (\<lambda>t. todo_id t \<noteq> todo_id (todos m ! k))"
    by (auto simp: has_id_def)
  with filter_other_ids[OF assms(1,2)] show ?thesis by simp
qed

lemma counts_sum: "activeCount m + completedCount m = length (todos m)"
  unfolding activeCount_def completedCount_def
  using sum_length_filter_compl[of "\<lambda>t. completed t" "todos m"] by simp

text \<open>
  A call keeps the ids of the list and the counter, or keeps some of the items
  and the counter, or appends one item with the counter as its id and steps the
  counter.
\<close>

lemma after_cases:
  "(map todo_id (todos (after c m)) = map todo_id (todos m) \<and> nextId (after c m) = nextId m) \<or>
   (\<exists>P. todos (after c m) = filter P (todos m) \<and> nextId (after c m) = nextId m) \<or>
   (\<exists>t. todos (after c m) = todos m @ [t] \<and> todo_id t = nextId m \<and>
        nextId (after c m) = js_incr (nextId m))"
proof (cases "c")
  case (AddTodo x now)
  with addTodo_cases[of x now m] show ?thesis by (auto simp: after_def)
next
  case (ToggleComplete v)
  then show ?thesis by (simp add: after_def toggleComplete_ids)
next
  case (DeleteTodo v)
  then have "todos (after c m) = filter (\<lambda>t. \<not> has_id v t) (todos m)"
    and "nextId (after c m) = nextId m" by (simp_all add: after_def deleteTodo_def)
  then show ?thesis by blast
next
  case (UpdateTodo v newText)
  then show ?thesis by (simp add: after_def updateTodo_ids)
next
  case ClearCompleted
  then have "todos (after c m) = filter (\<lambda>t. \<not> completed t) (todos m)"
    and "nextId (after c m) = nextId m" by (simp_all add: after_def clearCompleted_def)
  then show ?thesis by blast
next
  case ClearAll
  then have "todos (after c m) = filter (\<lambda>t. False) (todos m)"
    and "nextId (after c m) = nextId m" by (simp_all add: after_def clearAll_def)
  then show ?thesis by blast
next
  case (Subscribe l)
  then show ?thesis by (simp add: after_def subscribe_def)
qed

subsection \<open>Sequences of calls keep the ids fresh while the counter is exact\<close>

lemma counter_after:
  assumes "counter_ok m"
  shows "counter_ok (after c m) \<and> nextId m \<le> nextId (after c m)"
proof -
  from assms js_incr_range[of "nextId m"]
  have "nextId m \<le> js_incr (nextId m) \<and> js_incr (nextId m) \<le> 2 ^ 53"
    by (simp add: counter_ok_def)
  with assms after_cases[of c m] show ?thesis by (auto simp: counter_ok_def)
qed

lemma counter_run: "counter_ok m \<Longrightarrow> counter_ok (run cs m) \<and> nextId m \<le> nextId (run cs m)"
proof (induction cs arbitrary: m)
  case Nil
  then show ?case by simp
next
  case (Cons c cs)
  from counter_after[OF Cons.prems, of c]
  have ok: "counter_ok (after c m)" and le: "nextId m \<le> nextId (after c m)" by simp_all
  from Cons.IH[OF ok] le show ?case by simp
qed

lemma counter_exact:
  "counter_ok m \<Longrightarrow> nextId m < 2 ^ 53 \<Longrightarrow> js_incr (nextId m) = nextId m + 1"
  by (rule js_incr_exact) (simp add: counter_ok_def)

lemma ids_fresh_after:
  assumes "ids_fresh m" and "counter_ok m" and "nextId m < 2 ^ 53"
  shows "ids_fresh (after c m)"
proof -
  note inc = counter_exact[OF assms(2,3)]
  from after_cases[of c m] consider
    (same) "map todo_id (todos (after c m)) = map todo_id (todos m)"
      "nextId (after c m) = nextId m"
    | (fewer) P where "todos (after c m) = filter P (todos m)" "nextId (after c m) = nextId m"
    | (more) t where "todos (after c m) = todos m @ [t]" "todo_id t = nextId m"
      "nextId (after c m) = js_incr (nextId m)"
    by blast
  then show ?thesis
  proof cases
    case same
    with assms(1) show ?thesis by (simp add: ids_fresh_def)
  next
    case fewer
    with assms(1) show ?thesis
      by (auto simp: ids_fresh_def distinct_map_filter list_all_iff)
  next
    case more
    with assms(1) inc show ?thesis
      by (fastforce simp: ids_fresh_def list_all_iff)
  qed
qed

lemma ids_fresh_run:
  "ids_fresh m \<Longrightarrow> counter_ok m \<Longrightarrow> nextId (run cs m) < 2 ^ 53 \<Longrightarrow> ids_fresh (run cs m)"
proof (induction cs arbitrary: m)
  case Nil
  then show ?case by simp
next
  case (Cons c cs)
  from counter_after[OF Cons.prems(2), of c]
  have ok: "counter_ok (after c m)" and le: "nextId m \<le> nextId (after c m)" by simp_all
  from counter_run[OF ok, of cs] Cons.prems(3) le have "nextId m < 2 ^ 53" by simp
  from ids_fresh_after[OF Cons.prems(1,2) this] have "ids_fresh (after c m)" .
  from Cons.IH[OF this ok] Cons.prems(3) show ?case by simp
qed

lemma ids_fresh_fresh: "ids_fresh fresh" and counter_ok_fresh: "counter_ok fresh"
  by (simp_all add: ids_fresh_def counter_ok_def fresh_def)

text \<open>Only a call that takes a new id makes the list longer.\<close>

lemma longer_after:
  assumes "length (todos m) < length (todos (after c m))"
  shows "todo_id (last (todos (after c m))) = nextId m \<and>
         nextId (after c m) = js_incr (nextId m)"
proof -
  from after_cases[of c m] consider
    (same) "map todo_id (todos (after c m)) = map todo_id (todos m)"
    | (fewer) P where "todos (after c m) = filter P (todos m)"
    | (more) t where "todos (after c m) = todos m @ [t]" "todo_id t = nextId m"
      "nextId (after c m) = js_incr (nextId m)"
    by blast
  then show ?thesis
  proof cases
    case same
    then have "length (todos (after c m)) = length (todos m)" by (rule map_eq_imp_length_eq)
    with assms show ?thesis by simp
  next
    case fewer
    with assms length_filter_le[of P "todos m"] show ?thesis by simp
  next
    case more
    then show ?thesis by simp
  qed
qed

lemma issued_ids_below:
  "counter_ok m \<Longrightarrow> nextId (run cs m) < 2 ^ 53 \<Longrightarrow> i \<in> set (issued_ids cs m) \<Longrightarrow>
     i < nextId (run cs m)"
proof (induction cs arbitrary: m)
  case Nil
  then show ?case by simp
next
  case (Cons c cs)
  from counter_after[OF Cons.prems(1), of c]
  have ok: "counter_ok (after c m)" and le: "nextId m \<le> nextId (after c m)" by simp_all
  from counter_run[OF ok, of cs] have le': "nextId (after c m) \<le> nextId (run cs (after c m))"
    by simp
  from Cons.prems(3) consider
    (head) "length (todos m) < length (todos (after c m))" "i = todo_id (last (todos (after c m)))"
    | (tail) "i \<in> set (issued_ids cs (after c m))"
    by (auto split: if_splits)
  then show ?case
  proof cases
    case head
    from le le' Cons.prems(2) have "nextId m < 2 ^ 53" by simp
    from counter_exact[OF Cons.prems(1) this] longer_after[OF head(1)] head(2)
    have "i < nextId (after c m)" by simp
    with le' show ?thesis by simp
  next
    case tail
    from Cons.IH[OF ok _ tail] Cons.prems(2) show ?thesis by simp
  qed
qed

lemma run_append: "run (cs @ ds) m = run ds (run cs m)"
  by (induction cs arbitrary: m) simp_all

text \<open>An id that stood in the list at any earlier moment is below the counter now.\<close>

lemma earlier_ids_below:
  assumes "ids_fresh m0" and "counter_ok m0" and "nextId (run cs m0) < 2 ^ 53"
    and "k \<le> length cs" and "t \<in> set (todos (run (take k cs) m0))"
  shows "todo_id t < nextId (run cs m0)"
proof -
  let ?mk = "run (take k cs) m0"
  have r: "run (drop k cs) ?mk = run cs m0"
    using run_append[of "take k cs" "drop k cs" m0] by simp
  from counter_run[OF assms(2), of "take k cs"] have ok: "counter_ok ?mk" by simp
  from counter_run[OF ok, of "drop k cs"] r have le: "nextId ?mk \<le> nextId (run cs m0)"
    by simp
  with assms(3) have "nextId ?mk < 2 ^ 53" by simp
  from ids_fresh_run[OF assms(1,2) this] have "ids_fresh ?mk" .
  with assms(5) have "todo_id t < nextId ?mk" by (auto simp: ids_fresh_def list_all_iff)
  with le show ?thesis by simp
qed

subsection \<open>The example session\<close>

lemma run_example:
  "map todo_id (todos (run example_calls fresh)) = [2, 3]"
  "nextId (run example_calls fresh) = 4"
  by (simp_all add: example_calls_def eval_defs)

lemma issued_example: "issued_ids example_calls fresh = [1, 2, 3]"
  by (simp add: example_calls_def eval_defs)

lemma example_model_fields:
  "todos example_model =
     [\<lparr>todo_id = 2, todo_text = ascii ''Task 2'', completed = False, createdAt = ascii ''t2''\<rparr>,
      \<lparr>todo_id = 3, todo_text = ascii ''New'', completed = False, createdAt = ascii ''t5''\<rparr>]"
  "nextId example_model = 4"
  "listeners example_model = [Returns 0]"
  by (simp_all add: example_model_def example_calls_def eval_defs)

subsection \<open>The session that uses up the counter\<close>

lemma after_add_a:
  "todos (after add_a m) =
     todos m @ [\<lparr>todo_id = nextId m, todo_text = ascii ''a'', completed = False,
                 createdAt = ascii ''t''\<rparr>]"
  "nextId (after add_a m) = js_incr (nextId m)"
proof -
  have "trim (ascii ''a'') = ascii ''a''" by (simp add: trim_def ascii_def is_white_space_def)
  moreover have "ascii ''a'' \<noteq> []" by (simp add: ascii_def)
  ultimately have "trim (ascii ''a'') \<noteq> []" by simp
  from addTodo_added[OF this, of "ascii ''t''" m] \<open>trim (ascii ''a'') = ascii ''a''\<close>
  show "todos (after add_a m) =
     todos m @ [\<lparr>todo_id = nextId m, todo_text = ascii ''a'', completed = False,
                 createdAt = ascii ''t''\<rparr>]"
    and "nextId (after add_a m) = js_incr (nextId m)"
    by (simp_all add: after_def add_a_def)
qed

lemma after_ClearAll: "todos (after ClearAll m) = []" "nextId (after ClearAll m) = nextId m"
  by (simp_all add: after_def clearAll_def)

lemma run_add_clear:
  "todos m = [] \<Longrightarrow> 0 \<le> nextId m \<Longrightarrow> nextId m + int n \<le> 2 ^ 53 \<Longrightarrow>
     todos (run (concat (replicate n [add_a, ClearAll])) m) = [] \<and>
     nextId (run (concat (replicate n [add_a, ClearAll])) m) = nextId m + int n"
proof (induction n arbitrary: m)
  case 0
  then show ?case by simp
next
  case (Suc n)
  let ?m' = "after ClearAll (after add_a m)"
  from Suc.prems have "\<bar>nextId m\<bar> < 2 ^ 53" by simp
  then have inc: "js_incr (nextId m) = nextId m + 1" by (rule js_incr_exact)
  have t: "todos ?m' = []" and n: "nextId ?m' = nextId m + 1"
    by (simp_all add: after_ClearAll after_add_a inc)
  from Suc.IH[of ?m'] t n Suc.prems show ?case by simp
qed

lemma run_overflow:
  "map todo_id (todos (run overflow_calls fresh)) = [2 ^ 53, 2 ^ 53]"
  "nextId (run overflow_calls fresh) = 2 ^ 53"
proof -
  let ?m = "run (concat (replicate (2 ^ 53 - 1) [add_a, ClearAll])) fresh"
  have "todos fresh = []" and "0 \<le> nextId fresh"
    and "nextId fresh + int (2 ^ 53 - 1) \<le> 2 ^ 53" by (simp_all add: fresh_def)
  from run_add_clear[OF this] have t: "todos ?m = []" and n: "nextId ?m = 2 ^ 53"
    by (simp_all add: fresh_def)
  have r: "run overflow_calls fresh = after add_a (after add_a ?m)"
    by (simp add: overflow_calls_def run_append)
  from t n js_incr_stalls
  show "map todo_id (todos (run overflow_calls fresh)) = [2 ^ 53, 2 ^ 53]"
    and "nextId (run overflow_calls fresh) = 2 ^ 53"
    unfolding r by (simp_all add: after_add_a)
qed

section \<open>The properties of the store\<close>

subsection \<open>Invariants\<close>

text \<open>
  Claim C1, as the code has it. Take the store the constructor builds from an
  empty storage: its list is empty and its counter is 1. After any sequence of
  calls of \<^verbatim>\<open>addTodo\<close>, \<^verbatim>\<open>toggleComplete\<close>, \<^verbatim>\<open>deleteTodo\<close>, \<^verbatim>\<open>updateTodo\<close>,
  \<^verbatim>\<open>clearCompleted\<close>, \<^verbatim>\<open>clearAll\<close> (and \<^verbatim>\<open>subscribe\<close>), with any arguments
  and any listeners, that leaves the counter below \<open>2 ^ 53\<close>, the active and
  the completed count add up to the length of the list, the ids in the list are
  pairwise different, and the counter is greater than each of them.
\<close>

theorem store_invariants:
  assumes "TodoModel Map.empty = Some m0" and "nextId (run cs m0) < 2 ^ 53"
  shows "todos m0 = [] \<and> nextId m0 = 1 \<and>
         activeCount (run cs m0) + completedCount (run cs m0) = length (todos (run cs m0)) \<and>
         distinct (map todo_id (todos (run cs m0))) \<and>
         (\<forall>t \<in> set (todos (run cs m0)). todo_id t < nextId (run cs m0))"
proof -
  from assms(1) have m0: "m0 = fresh" by (simp add: TodoModel_empty)
  from assms(2) have "nextId (run cs fresh) < 2 ^ 53" by (simp add: m0)
  with ids_fresh_fresh counter_ok_fresh have "ids_fresh (run cs fresh)" by (rule ids_fresh_run)
  then have "distinct (map todo_id (todos (run cs fresh)))"
    and "\<forall>t \<in> set (todos (run cs fresh)). todo_id t < nextId (run cs fresh)"
    by (simp_all add: ids_fresh_def list_all_iff)
  moreover have "todos fresh = []" and "nextId fresh = 1" by (simp_all add: fresh_def)
  ultimately show ?thesis unfolding m0 by (simp add: counts_sum)
qed

theorem store_invariants_witness:
  "TodoModel Map.empty = Some fresh \<and>
   nextId (run example_calls fresh) < 2 ^ 53 \<and>
   map todo_id (todos (run example_calls fresh)) = [2, 3] \<and>
   nextId (run example_calls fresh) = 4 \<and>
   activeCount (run example_calls fresh) + completedCount (run example_calls fresh) = 2 \<and>
   distinct (map todo_id (todos (run example_calls fresh))) \<and>
   list_all (\<lambda>t. todo_id t < 4) (todos (run example_calls fresh))"
proof -
  have h: "TodoModel Map.empty = Some fresh"
    by (simp add: TodoModel_def storage_load_def fresh_def)
  have b: "nextId (run example_calls fresh) < 2 ^ 53" by (simp add: run_example(2))
  have l: "length (todos (run example_calls fresh)) = 2"
    using run_example(1) length_map[of todo_id "todos (run example_calls fresh)"] by simp
  from store_invariants[OF h b] h b l run_example show ?thesis
    by (simp add: list_all_iff)
qed

text \<open>
  Claim C1, as it is written (after every sequence of calls), fails. A number
  counts exactly up to \<open>2 ^ 53\<close>, where \<^verbatim>\<open>nextId++\<close> leaves the counter as it
  is: after \<open>2 ^ 53 - 1\<close> ids the next two items both get the id \<open>2 ^ 53\<close>,
  which is also the counter.
\<close>

theorem store_invariants_overflow:
  "TodoModel Map.empty = Some fresh \<and>
   map todo_id (todos (run overflow_calls fresh)) = [2 ^ 53, 2 ^ 53] \<and>
   nextId (run overflow_calls fresh) = 2 ^ 53 \<and>
   \<not> distinct (map todo_id (todos (run overflow_calls fresh)))"
proof -
  have "\<not> distinct (map todo_id (todos (run overflow_calls fresh)))"
    unfolding run_overflow(1) by simp
  with TodoModel_empty run_overflow show ?thesis by (intro conjI)
qed

subsection \<open>Adding an item\<close>

text \<open>
  Claim C2, as the code has it. For every string whose trimmed form is not
  empty, on a store whose counter is a safe integer (below \<open>2 ^ 53\<close> in
  magnitude), \<^verbatim>\<open>addTodo\<close> leaves the list one longer: the old list followed by
  one new item whose text is the trimmed string, whose flag is false and whose
  id is the counter before the call; and the counter is one higher. The call
  returns when every listener returns. The new id is greater than every id
  issued by an earlier call on the same store, when the store started with a
  safe counter; and when it started with fresh ids too (the empty store is one)
  it is greater than every id that stood in the list at any earlier moment.
\<close>

theorem addTodo_appends:
  assumes "trim s \<noteq> []" and "\<bar>nextId m\<bar> < 2 ^ 53"
  shows "\<exists>m'. model_after (addTodo (JStr s) now m) = m' \<and>
           (addTodo (JStr s) now m = Inr m') = list_all returns (listeners m) \<and>
           length (todos m') = length (todos m) + 1 \<and>
           todos m' = todos m @ [\<lparr>todo_id = nextId m, todo_text = trim s,
                                  completed = False, createdAt = now\<rparr>] \<and>
           nextId m' = nextId m + 1 \<and>
           (\<forall>m0 cs. \<bar>nextId m0\<bar> < 2 ^ 53 \<and> m = run cs m0 \<longrightarrow>
              (\<forall>i \<in> set (issued_ids cs m0). i < nextId m)) \<and>
           (\<forall>m0 cs k. ids_fresh m0 \<and> \<bar>nextId m0\<bar> < 2 ^ 53 \<and> m = run cs m0 \<and> k \<le> length cs \<longrightarrow>
              (\<forall>t \<in> set (todos (run (take k cs) m0)). todo_id t < nextId m))"
proof -
  let ?m2 = "m\<lparr>nextId := js_incr (nextId m),
        todos := todos m @ [\<lparr>todo_id = nextId m, todo_text = trim s,
                              completed = False, createdAt = now\<rparr>]\<rparr>"
  have a: "addTodo (JStr s) now m = notify (save ?m2)" using assms(1) by (rule addTodo_added)
  have inc: "js_incr (nextId m) = nextId m + 1" using assms(2) by (rule js_incr_exact)
  have below: "nextId m < 2 ^ 53" using assms(2) by simp
  have ok: "counter_ok m0" if "\<bar>nextId m0\<bar> < 2 ^ 53" for m0
    using that by (simp add: counter_ok_def abs_less_iff)
  have r: "(addTodo (JStr s) now m = Inr (model_after (addTodo (JStr s) now m)))
             = list_all returns (listeners m)"
    unfolding a by (simp add: notify_returns_iff)
  have i: "\<forall>m0 cs. \<bar>nextId m0\<bar> < 2 ^ 53 \<and> m = run cs m0 \<longrightarrow>
              (\<forall>i \<in> set (issued_ids cs m0). i < nextId m)"
    using issued_ids_below ok below by blast
  have e: "\<forall>m0 cs k. ids_fresh m0 \<and> \<bar>nextId m0\<bar> < 2 ^ 53 \<and> m = run cs m0 \<and> k \<le> length cs \<longrightarrow>
              (\<forall>t \<in> set (todos (run (take k cs) m0)). todo_id t < nextId m)"
    using earlier_ids_below ok below by blast
  have "length (todos (model_after (addTodo (JStr s) now m))) = length (todos m) + 1"
    and "todos (model_after (addTodo (JStr s) now m)) =
           todos m @ [\<lparr>todo_id = nextId m, todo_text = trim s,
                        completed = False, createdAt = now\<rparr>]"
    and "nextId (model_after (addTodo (JStr s) now m)) = nextId m + 1"
    unfolding a by (simp_all add: inc)
  with r i e show ?thesis by (intro exI[of _ "model_after (addTodo (JStr s) now m)"] conjI) simp_all
qed

theorem addTodo_appends_witness:
  "trim (ascii '' Buy milk '') \<noteq> [] \<and>
   \<bar>nextId (run example_calls fresh)\<bar> < 2 ^ 53 \<and>
   ids_fresh fresh \<and> \<bar>nextId fresh\<bar> < 2 ^ 53 \<and>
   (\<exists>m'. addTodo (JStr (ascii '' Buy milk '')) (ascii ''t6'') (run example_calls fresh) = Inr m' \<and>
      map todo_id (todos m') = [2, 3, 4] \<and>
      todo_text (last (todos m')) = ascii ''Buy milk'' \<and>
      nextId m' = 5) \<and>
   issued_ids example_calls fresh = [1, 2, 3] \<and>
   list_all (\<lambda>i. i < 4) (issued_ids example_calls fresh) \<and>
   map todo_id (todos (run (take 4 example_calls) fresh)) = [1, 2] \<and>
   list_all (\<lambda>t. todo_id t < 4) (todos (run (take 4 example_calls) fresh))"
proof -
  let ?M = "run example_calls fresh"
  have h: "trim (ascii '' Buy milk '') \<noteq> []" by (simp add: eval_defs)
  have b: "\<bar>nextId ?M\<bar> < 2 ^ 53" by (simp add: run_example(2))
  have e: "ids_fresh fresh" by (rule ids_fresh_fresh)
  have f: "\<bar>nextId fresh\<bar> < 2 ^ 53" by (simp add: fresh_def)
  have p: "map todo_id (todos (run (take 4 example_calls) fresh)) = [1, 2]"
    by (simp add: example_calls_def eval_defs)
  have l: "(4::nat) \<le> length example_calls" by (simp add: example_calls_def)
  have ls: "list_all returns (listeners ?M)"
    using example_model_fields(3) by (simp add: example_model_def)
  from addTodo_appends[OF h b, of "ascii ''t6''"]
  obtain m' where m': "model_after (addTodo (JStr (ascii '' Buy milk '')) (ascii ''t6'') ?M) = m'"
    "(addTodo (JStr (ascii '' Buy milk '')) (ascii ''t6'') ?M = Inr m') = list_all returns (listeners ?M)"
    "todos m' = todos ?M @ [\<lparr>todo_id = nextId ?M,
        todo_text = trim (ascii '' Buy milk ''), completed = False, createdAt = ascii ''t6''\<rparr>]"
    "nextId m' = nextId ?M + 1"
    and issued: "\<forall>m0 cs. \<bar>nextId m0\<bar> < 2 ^ 53 \<and> ?M = run cs m0 \<longrightarrow>
       (\<forall>i \<in> set (issued_ids cs m0). i < nextId ?M)"
    and earlier: "\<forall>m0 cs k. ids_fresh m0 \<and> \<bar>nextId m0\<bar> < 2 ^ 53 \<and> ?M = run cs m0 \<and> k \<le> length cs \<longrightarrow>
       (\<forall>t \<in> set (todos (run (take k cs) m0)). todo_id t < nextId ?M)"
    by blast
  from m'(2) ls have ret: "addTodo (JStr (ascii '' Buy milk '')) (ascii ''t6'') ?M = Inr m'"
    by simp
  from earlier e f l
  have "\<forall>t \<in> set (todos (run (take 4 example_calls) fresh)). todo_id t < nextId ?M"
    by blast
  then have q: "list_all (\<lambda>t. todo_id t < 4) (todos (run (take 4 example_calls) fresh))"
    by (simp only: list_all_iff run_example(2))
  from issued f have "\<forall>i \<in> set (issued_ids example_calls fresh). i < nextId ?M"
    by blast
  then have r: "list_all (\<lambda>i. i < 4) (issued_ids example_calls fresh)"
    by (simp only: list_all_iff run_example(2))
  have "trim (ascii '' Buy milk '') = ascii ''Buy milk''" by (simp add: eval_defs)
  with m'(3,4) run_example have "map todo_id (todos m') = [2, 3, 4]"
    "todo_text (last (todos m')) = ascii ''Buy milk''" "nextId m' = 5" by simp_all
  with ret have "\<exists>m'. addTodo (JStr (ascii '' Buy milk '')) (ascii ''t6'') ?M = Inr m' \<and>
      map todo_id (todos m') = [2, 3, 4] \<and>
      todo_text (last (todos m')) = ascii ''Buy milk'' \<and>
      nextId m' = 5" by (intro exI[of _ m']) simp
  with h b e f p q r issued_example show ?thesis by (intro conjI)
qed

text \<open>
  Claim C2, as it is written (for every store), fails on the store built from a
  storage that holds the counter \<open>2 ^ 53\<close>: \<^verbatim>\<open>addTodo\<close> leaves the counter as
  it is, and a second call issues the same id again.
\<close>

theorem addTodo_stalls:
  "TodoModel stalled_storage = Some stalled_model \<and>
   trim (ascii ''a'') = ascii ''a'' \<and>
   nextId stalled_model = 2 ^ 53 \<and>
   nextId (model_after (addTodo (JStr (ascii ''a'')) (ascii ''t'') stalled_model)) = 2 ^ 53 \<and>
   run [add_a, add_a] stalled_model =
     model_after (addTodo (JStr (ascii ''a'')) (ascii ''t'')
       (model_after (addTodo (JStr (ascii ''a'')) (ascii ''t'') stalled_model))) \<and>
   map todo_id (todos (run [add_a, add_a] stalled_model)) = [2 ^ 53, 2 ^ 53]"
proof -
  have c: "TodoModel stalled_storage = Some stalled_model"
    by (simp add: TodoModel_def storage_load_def stalled_storage_def stalled_model_def)
  have t: "trim (ascii ''a'') = ascii ''a''" by (simp add: trim_def ascii_def is_white_space_def)
  have n: "nextId stalled_model = 2 ^ 53" and ts: "todos stalled_model = []"
    by (simp_all add: stalled_model_def)
  have a: "after add_a m = model_after (addTodo (JStr (ascii ''a'')) (ascii ''t'') m)" for m
    by (simp add: after_def add_a_def)
  from n js_incr_stalls have s: "nextId (after add_a stalled_model) = 2 ^ 53"
    by (simp add: after_add_a)
  have r: "run [add_a, add_a] stalled_model =
     model_after (addTodo (JStr (ascii ''a'')) (ascii ''t'')
       (model_after (addTodo (JStr (ascii ''a'')) (ascii ''t'') stalled_model)))"
    by (simp add: a)
  from n ts s have i: "map todo_id (todos (run [add_a, add_a] stalled_model)) = [2 ^ 53, 2 ^ 53]"
    by (simp add: after_add_a)
  from c t n s[unfolded a] r i show ?thesis by (intro conjI)
qed

text \<open>
  Claim C3. For every string that trims to the empty string, \<^verbatim>\<open>addTodo\<close>
  returns the model it was given: the list, the counter, the storage and the
  record of effects (writes and listener calls) are what they were.
\<close>

theorem addTodo_blank_noop:
  "trim s = [] \<Longrightarrow> addTodo (JStr s) now m = Inr m"
  by (simp add: addTodo_def)

theorem addTodo_blank_noop_witness:
  "trim (ascii ''   '') = [] \<and>
   addTodo (JStr (ascii ''   '')) (ascii ''t6'') (run example_calls fresh)
     = Inr (run example_calls fresh)"
proof -
  have h: "trim (ascii ''   '') = []" by (simp add: eval_defs)
  from addTodo_blank_noop[OF h] h show ?thesis by blast
qed

text \<open>
  Claim C10. \<^verbatim>\<open>addTodo(null)\<close> and \<^verbatim>\<open>addTodo(undefined)\<close> return the model
  they were given, with nothing written and no listener called, although calling
  \<^verbatim>\<open>trim\<close> on either value would raise: the test \<^verbatim>\<open>!text\<close> comes first.
\<close>

theorem addTodo_null_undefined_noop:
  "js_trim JNull = Inl TypeError \<and> js_trim JUndefined = Inl TypeError \<and>
   addTodo JNull now m = Inr m \<and> addTodo JUndefined now m = Inr m"
  by (simp add: addTodo_def)

subsection \<open>Changing the text of an item\<close>

text \<open>
  Claim C4. For every id and every string \<open>newText\<close>: when an item has the id
  and the trimmed string is not empty, \<^verbatim>\<open>updateTodo\<close> puts the trimmed string
  in the text of the first such item, at its place in the list, saves and
  notifies, and returns when every listener returns; when no item has the id,
  or the string trims to the empty string, it returns the model it was given.
\<close>

theorem updateTodo_spec:
  "((\<exists>t \<in> set (todos m). has_id v t) \<and> trim newText \<noteq> [] \<longrightarrow>
      (\<exists>m' k. model_after (updateTodo v (JStr newText) m) = m' \<and>
         (updateTodo v (JStr newText) m = Inr m') = list_all returns (listeners m) \<and>
         k < length (todos m) \<and> has_id v (todos m ! k) \<and>
         (\<forall>j < k. \<not> has_id v (todos m ! j)) \<and>
         todos m' = (todos m)[k := (todos m ! k)\<lparr>todo_text := trim newText\<rparr>] \<and>
         nextId m' = nextId m \<and>
         persisted_and_notified m m')) \<and>
   ((\<forall>t \<in> set (todos m). \<not> has_id v t) \<or> trim newText = [] \<longrightarrow>
      updateTodo v (JStr newText) m = Inr m)"
proof (intro conjI impI)
  assume a: "(\<exists>t \<in> set (todos m). has_id v t) \<and> trim newText \<noteq> []"
  then obtain t where t: "find (has_id v) (todos m) = Some t"
    using find_Some_ex[of "todos m" "has_id v"] by blast
  let ?f = "\<lambda>t. t\<lparr>todo_text := trim newText\<rparr>"
  let ?m1 = "m\<lparr>todos := modify_first (has_id v) ?f (todos m)\<rparr>"
  let ?m' = "model_after (notify (save ?m1))"
  from t a have u: "updateTodo v (JStr newText) m = notify (save ?m1)"
    by (intro updateTodo_found) simp_all
  from modify_first_list_update[OF t, of ?f] obtain k where k: "k < length (todos m)"
    "todos m ! k = t" "has_id v t" "\<forall>j < k. \<not> has_id v (todos m ! j)"
    "modify_first (has_id v) ?f (todos m) = (todos m)[k := ?f t]" by blast
  have p: "persisted_and_notified m ?m'" by (rule persisted_and_notifiedI) simp_all
  have r: "(notify (save ?m1) = Inr ?m') = list_all returns (listeners m)"
    by (simp add: notify_returns_iff)
  have "todos ?m' = (todos m)[k := (todos m ! k)\<lparr>todo_text := trim newText\<rparr>]"
    using k(2,5) by simp
  moreover have "nextId ?m' = nextId m" by simp
  moreover have "has_id v (todos m ! k)" using k(2,3) by simp
  ultimately show "\<exists>m' k. model_after (updateTodo v (JStr newText) m) = m' \<and>
         (updateTodo v (JStr newText) m = Inr m') = list_all returns (listeners m) \<and>
         k < length (todos m) \<and> has_id v (todos m ! k) \<and>
         (\<forall>j < k. \<not> has_id v (todos m ! j)) \<and>
         todos m' = (todos m)[k := (todos m ! k)\<lparr>todo_text := trim newText\<rparr>] \<and>
         nextId m' = nextId m \<and>
         persisted_and_notified m m'"
    unfolding u using r k(1,4) p by blast
next
  assume "(\<forall>t \<in> set (todos m). \<not> has_id v t) \<or> trim newText = []"
  then show "updateTodo v (JStr newText) m = Inr m"
  proof
    assume "\<forall>t \<in> set (todos m). \<not> has_id v t"
    then have "find (has_id v) (todos m) = None" by (simp add: find_None_iff)
    then show ?thesis by (rule updateTodo_not_found)
  next
    assume "trim newText = []"
    then show ?thesis by (rule updateTodo_blank)
  qed
qed

theorem updateTodo_spec_witness:
  "has_id (JNum 3) (todos example_model ! 1) \<and>
   trim (ascii '' Newer '') = ascii ''Newer'' \<and>
   list_all returns (listeners example_model) \<and>
   (\<exists>m'. updateTodo (JNum 3) (JStr (ascii '' Newer '')) example_model = Inr m' \<and>
      map todo_text (todos m') = [ascii ''Task 2'', ascii ''Newer''] \<and>
      persisted_and_notified example_model m' \<and>
      effects m' = effects example_model @
        [Saved ''items'' (Items (todos m')), Saved ''nextId'' (Number 4), Called 0]) \<and>
   updateTodo (JNum 9) (JStr (ascii ''Newer'')) example_model = Inr example_model \<and>
   updateTodo (JNum 3) (JStr (ascii ''  '')) example_model = Inr example_model"
proof -
  have h: "has_id (JNum 3) (todos example_model ! 1)"
    by (simp add: example_model_fields has_id_def)
  have tr: "trim (ascii '' Newer '') = ascii ''Newer''" by (simp add: eval_defs)
  have ls: "list_all returns (listeners example_model)" by (simp add: example_model_fields)
  have ex: "\<exists>t \<in> set (todos example_model). has_id (JNum 3) t"
    by (simp add: example_model_fields has_id_def)
  have ne: "trim (ascii '' Newer '') \<noteq> []" by (simp add: eval_defs)
  from updateTodo_spec[of example_model "JNum 3" "ascii '' Newer ''"] ex ne
  obtain m' k where m':
    "(updateTodo (JNum 3) (JStr (ascii '' Newer '')) example_model = Inr m')
       = list_all returns (listeners example_model)"
    "k < length (todos example_model)" "has_id (JNum 3) (todos example_model ! k)"
    "todos m' = (todos example_model)[k :=
        (todos example_model ! k)\<lparr>todo_text := trim (ascii '' Newer '')\<rparr>]"
    "nextId m' = nextId example_model"
    "persisted_and_notified example_model m'" by blast
  from m'(1) ls have ret: "updateTodo (JNum 3) (JStr (ascii '' Newer '')) example_model = Inr m'"
    by simp
  from m'(2,3) have "k = 1"
    by (cases k) (simp_all add: example_model_fields has_id_def)
  with m'(4) tr have tx: "map todo_text (todos m') = [ascii ''Task 2'', ascii ''Newer'']"
    by (simp add: example_model_fields)
  from m'(5,6) have ef: "effects m' = effects example_model @
        [Saved ''items'' (Items (todos m')), Saved ''nextId'' (Number 4), Called 0]"
    by (simp add: persisted_and_notified_def example_model_fields(2,3))
  from ret tx m'(6) ef
  have a: "\<exists>m'. updateTodo (JNum 3) (JStr (ascii '' Newer '')) example_model = Inr m' \<and>
      map todo_text (todos m') = [ascii ''Task 2'', ascii ''Newer''] \<and>
      persisted_and_notified example_model m' \<and>
      effects m' = effects example_model @
        [Saved ''items'' (Items (todos m')), Saved ''nextId'' (Number 4), Called 0]"
    by (intro exI[of _ m'] conjI)
  have "\<forall>t \<in> set (todos example_model). \<not> has_id (JNum 9) t"
    by (simp add: example_model_fields has_id_def)
  with updateTodo_spec[of example_model "JNum 9" "ascii ''Newer''"]
  have b: "updateTodo (JNum 9) (JStr (ascii ''Newer'')) example_model = Inr example_model"
    by blast
  have "trim (ascii ''  '') = []" by (simp add: eval_defs)
  with updateTodo_spec[of example_model "JNum 3" "ascii ''  ''"]
  have c: "updateTodo (JNum 3) (JStr (ascii ''  '')) example_model = Inr example_model"
    by blast
  from h tr ls a b c show ?thesis by (intro conjI)
qed

subsection \<open>Deleting an item\<close>

text \<open>
  Claim C5. For every id, \<^verbatim>\<open>deleteTodo\<close> keeps exactly the items with another
  id, in their order (when ids are pairwise different, the list loses the one
  position that had the id), and it always saves and notifies: when no item has
  the id the list is the same, and yet the writes and the listener calls happen.
  The call returns when every listener returns.
\<close>

theorem deleteTodo_spec:
  "todos (model_after (deleteTodo v m)) = filter (\<lambda>t. \<not> has_id v t) (todos m) \<and>
   subseq (todos (model_after (deleteTodo v m))) (todos m) \<and>
   nextId (model_after (deleteTodo v m)) = nextId m \<and>
   persisted_and_notified m (model_after (deleteTodo v m)) \<and>
   (deleteTodo v m = Inr (model_after (deleteTodo v m))) = list_all returns (listeners m) \<and>
   (\<forall>k. distinct (map todo_id (todos m)) \<and> k < length (todos m) \<and> has_id v (todos m ! k) \<longrightarrow>
      todos (model_after (deleteTodo v m)) = take k (todos m) @ drop (Suc k) (todos m)) \<and>
   ((\<forall>t \<in> set (todos m). \<not> has_id v t) \<longrightarrow>
      todos (model_after (deleteTodo v m)) = todos m \<and>
      effects (model_after (deleteTodo v m)) \<noteq> effects m)"
proof -
  let ?d = "model_after (deleteTodo v m)"
  have t: "todos ?d = filter (\<lambda>t. \<not> has_id v t) (todos m)"
    by (simp add: deleteTodo_def)
  have p: "persisted_and_notified m ?d"
    unfolding deleteTodo_def by (rule persisted_and_notifiedI) simp_all
  have r: "(deleteTodo v m = Inr ?d) = list_all returns (listeners m)"
    unfolding deleteTodo_def by (simp add: notify_returns_iff)
  have "subseq (todos ?d) (todos m)" unfolding t by simp
  moreover have "nextId ?d = nextId m" by (simp add: deleteTodo_def)
  moreover have "\<forall>k. distinct (map todo_id (todos m)) \<and> k < length (todos m) \<and>
      has_id v (todos m ! k) \<longrightarrow>
      todos ?d = take k (todos m) @ drop (Suc k) (todos m)"
    unfolding t using deleteTodo_at by blast
  moreover have "(\<forall>t \<in> set (todos m). \<not> has_id v t) \<longrightarrow>
      todos ?d = todos m \<and> effects ?d \<noteq> effects m"
    using effects_grow[OF p] unfolding t by (simp add: filter_id_conv)
  ultimately show ?thesis using t p r by (intro conjI)
qed

theorem deleteTodo_spec_witness:
  "distinct (map todo_id (todos example_model)) \<and>
   has_id (JNum 2) (todos example_model ! 0) \<and>
   map todo_id (todos (model_after (deleteTodo (JNum 2) example_model))) = [3] \<and>
   list_all returns (listeners example_model) \<and>
   (\<exists>m'. deleteTodo (JNum 7) example_model = Inr m' \<and>
      todos m' = todos example_model \<and>
      effects m' = effects example_model @
        [Saved ''items'' (Items (todos example_model)), Saved ''nextId'' (Number 4), Called 0])"
proof -
  have d: "distinct (map todo_id (todos example_model))"
    by (simp add: example_model_fields)
  have h: "has_id (JNum 2) (todos example_model ! 0)"
    by (simp add: example_model_fields has_id_def)
  have k: "0 < length (todos example_model)" by (simp add: example_model_fields)
  have ls: "list_all returns (listeners example_model)" by (simp add: example_model_fields)
  from deleteTodo_spec[of "JNum 2" example_model] d h k
  have "todos (model_after (deleteTodo (JNum 2) example_model)) =
          take 0 (todos example_model) @ drop (Suc 0) (todos example_model)" by blast
  then have a: "map todo_id (todos (model_after (deleteTodo (JNum 2) example_model))) = [3]"
    by (simp add: example_model_fields)
  let ?d = "model_after (deleteTodo (JNum 7) example_model)"
  have n: "\<forall>t \<in> set (todos example_model). \<not> has_id (JNum 7) t"
    by (simp add: example_model_fields has_id_def)
  from deleteTodo_spec[of "JNum 7" example_model] n ls
  have b: "todos ?d = todos example_model"
    and p: "persisted_and_notified example_model ?d"
    and q: "nextId ?d = nextId example_model"
    and r: "deleteTodo (JNum 7) example_model = Inr ?d"
    by blast+
  from p b q have c: "effects ?d =
     effects example_model @
       [Saved ''items'' (Items (todos example_model)), Saved ''nextId'' (Number 4), Called 0]"
    by (simp add: persisted_and_notified_def example_model_fields(2,3))
  from r b c have e: "\<exists>m'. deleteTodo (JNum 7) example_model = Inr m' \<and>
      todos m' = todos example_model \<and>
      effects m' = effects example_model @
        [Saved ''items'' (Items (todos example_model)), Saved ''nextId'' (Number 4), Called 0]"
    by (intro exI[of _ ?d] conjI)
  from d h a ls e show ?thesis by (intro conjI)
qed

subsection \<open>Toggling an item\<close>

text \<open>
  Claim C6. For an item that has the id (the only one when ids are pairwise
  different, the first one otherwise), \<^verbatim>\<open>toggleComplete\<close> negates its flag, and a
  second call gives the flag its first value back; two calls in a row leave the
  whole list as it was. When no item has the id, the call returns the model it
  was given.
\<close>

theorem toggleComplete_involution:
  "(\<forall>k. k < length (todos m) \<and> has_id v (todos m ! k) \<and>
        (distinct (map todo_id (todos m)) \<or> (\<forall>j < k. \<not> has_id v (todos m ! j))) \<longrightarrow>
      length (todos (model_after (toggleComplete v m))) = length (todos m) \<and>
      completed (todos (model_after (toggleComplete v m)) ! k) = (\<not> completed (todos m ! k)) \<and>
      completed (todos (model_after (toggleComplete v (model_after (toggleComplete v m)))) ! k)
        = completed (todos m ! k)) \<and>
   todos (model_after (toggleComplete v (model_after (toggleComplete v m)))) = todos m \<and>
   ((\<forall>t \<in> set (todos m). \<not> has_id v t) \<longrightarrow> toggleComplete v m = Inr m)"
proof -
  let ?f = "\<lambda>t. t\<lparr>completed := \<not> completed t\<rparr>"
  let ?t = "\<lambda>m. model_after (toggleComplete v m)"
  have twice: "todos (?t (?t m)) = todos m"
    unfolding toggleComplete_todos by (rule modify_first_twice) simp_all
  have noop: "(\<forall>t \<in> set (todos m). \<not> has_id v t) \<longrightarrow> toggleComplete v m = Inr m"
  proof
    assume "\<forall>t \<in> set (todos m). \<not> has_id v t"
    then have "find (has_id v) (todos m) = None" by (simp add: find_None_iff)
    then show "toggleComplete v m = Inr m" by (simp add: toggleComplete_def)
  qed
  have once: "length (todos (?t m)) = length (todos m) \<and>
      completed (todos (?t m) ! k) = (\<not> completed (todos m ! k))"
    if k: "k < length (todos m)" "has_id v (todos m ! k)"
      and u: "distinct (map todo_id (todos m)) \<or> (\<forall>j < k. \<not> has_id v (todos m ! j))"
    for k
  proof -
    from u has_id_same
    have "distinct (map todo_id (todos m)) \<and>
            (\<forall>x y. has_id v x \<and> has_id v y \<longrightarrow> todo_id x = todo_id y) \<or>
          (\<forall>j < k. \<not> has_id v (todos m ! j))" by blast
    from first_match_pos[OF k this, of ?f]
    have "todos (?t m) = (todos m)[k := ?f (todos m ! k)]"
      by (simp add: toggleComplete_todos)
    with k(1) show ?thesis by simp
  qed
  have "\<forall>k. k < length (todos m) \<and> has_id v (todos m ! k) \<and>
        (distinct (map todo_id (todos m)) \<or> (\<forall>j < k. \<not> has_id v (todos m ! j))) \<longrightarrow>
      length (todos (?t m)) = length (todos m) \<and>
      completed (todos (?t m) ! k) = (\<not> completed (todos m ! k)) \<and>
      completed (todos (?t (?t m)) ! k) = completed (todos m ! k)"
  proof (intro allI impI)
    fix k
    assume a: "k < length (todos m) \<and> has_id v (todos m ! k) \<and>
        (distinct (map todo_id (todos m)) \<or> (\<forall>j < k. \<not> has_id v (todos m ! j)))"
    then have "k < length (todos m)" and "has_id v (todos m ! k)"
      and "distinct (map todo_id (todos m)) \<or> (\<forall>j < k. \<not> has_id v (todos m ! j))"
      by simp_all
    from once[OF this] show "length (todos (?t m)) = length (todos m) \<and>
      completed (todos (?t m) ! k) = (\<not> completed (todos m ! k)) \<and>
      completed (todos (?t (?t m)) ! k) = completed (todos m ! k)"
      unfolding twice by simp
  qed
  with twice noop show ?thesis by (intro conjI)
qed

theorem toggleComplete_involution_witness:
  "distinct (map todo_id (todos example_model)) \<and>
   has_id (JNum 3) (todos example_model ! 1) \<and>
   completed (todos example_model ! 1) = False \<and>
   completed (todos (model_after (toggleComplete (JNum 3) example_model)) ! 1) = True \<and>
   completed (todos (model_after (toggleComplete (JNum 3)
      (model_after (toggleComplete (JNum 3) example_model)))) ! 1) = False \<and>
   toggleComplete (JNum 9) example_model = Inr example_model"
proof -
  have d: "distinct (map todo_id (todos example_model))"
    by (simp add: example_model_fields)
  have h: "has_id (JNum 3) (todos example_model ! 1)"
    by (simp add: example_model_fields has_id_def)
  have k: "1 < length (todos example_model)" by (simp add: example_model_fields)
  have c: "completed (todos example_model ! 1) = False" by (simp add: example_model_fields)
  from toggleComplete_involution[of example_model "JNum 3"] d h k
  have "completed (todos (model_after (toggleComplete (JNum 3) example_model)) ! 1) =
          (\<not> completed (todos example_model ! 1))"
    and "completed (todos (model_after (toggleComplete (JNum 3)
            (model_after (toggleComplete (JNum 3) example_model)))) ! 1)
          = completed (todos example_model ! 1)" by blast+
  with c have a: "completed (todos (model_after (toggleComplete (JNum 3) example_model)) ! 1) = True"
    and b: "completed (todos (model_after (toggleComplete (JNum 3)
            (model_after (toggleComplete (JNum 3) example_model)))) ! 1) = False" by simp_all
  have n: "\<forall>t \<in> set (todos example_model). \<not> has_id (JNum 9) t"
    by (simp add: example_model_fields has_id_def)
  with toggleComplete_involution[of example_model "JNum 9"]
  have e: "toggleComplete (JNum 9) example_model = Inr example_model" by blast
  from d h c a b e show ?thesis by (intro conjI)
qed

subsection \<open>Clearing the completed items\<close>

text \<open>
  Claim C7. \<^verbatim>\<open>clearCompleted\<close> keeps exactly the items whose flag is false, in
  their order; a second call in a row leaves the same list as the first; and it
  saves and notifies also when no item was completed. The call returns when
  every listener returns.
\<close>

theorem clearCompleted_spec:
  "todos (model_after (clearCompleted m)) = filter (\<lambda>t. \<not> completed t) (todos m) \<and>
   subseq (todos (model_after (clearCompleted m))) (todos m) \<and>
   set (todos (model_after (clearCompleted m))) = {t \<in> set (todos m). \<not> completed t} \<and>
   todos (model_after (clearCompleted (model_after (clearCompleted m))))
     = todos (model_after (clearCompleted m)) \<and>
   persisted_and_notified m (model_after (clearCompleted m)) \<and>
   (clearCompleted m = Inr (model_after (clearCompleted m))) = list_all returns (listeners m) \<and>
   ((\<forall>t \<in> set (todos m). \<not> completed t) \<longrightarrow>
      todos (model_after (clearCompleted m)) = todos m \<and>
      effects (model_after (clearCompleted m)) \<noteq> effects m)"
proof -
  let ?c = "\<lambda>m. model_after (clearCompleted m)"
  have t: "\<And>m. todos (?c m) = filter (\<lambda>t. \<not> completed t) (todos m)"
    by (simp add: clearCompleted_def)
  have p: "persisted_and_notified m (?c m)"
    unfolding clearCompleted_def by (rule persisted_and_notifiedI) simp_all
  have r: "(clearCompleted m = Inr (?c m)) = list_all returns (listeners m)"
    unfolding clearCompleted_def by (simp add: notify_returns_iff)
  have "subseq (todos (?c m)) (todos m)" unfolding t by simp
  moreover have "set (todos (?c m)) = {t \<in> set (todos m). \<not> completed t}"
    unfolding t by auto
  moreover have "todos (?c (?c m)) = todos (?c m)"
    unfolding t by simp
  moreover have "(\<forall>t \<in> set (todos m). \<not> completed t) \<longrightarrow>
      todos (?c m) = todos m \<and> effects (?c m) \<noteq> effects m"
    using effects_grow[OF p] unfolding t by (simp add: filter_id_conv)
  ultimately show ?thesis using t[of m] p r by (intro conjI)
qed

theorem clearCompleted_spec_witness:
  "list_all (\<lambda>t. \<not> completed t) (todos example_model) \<and>
   list_all returns (listeners example_model) \<and>
   (\<exists>m'. clearCompleted example_model = Inr m' \<and>
      todos m' = todos example_model \<and>
      effects m' = effects example_model @
        [Saved ''items'' (Items (todos example_model)), Saved ''nextId'' (Number 4), Called 0]) \<and>
   map todo_id (todos (model_after (clearCompleted
      (model_after (toggleComplete (JNum 2) example_model))))) = [3]"
proof -
  let ?c = "model_after (clearCompleted example_model)"
  have n: "\<forall>t \<in> set (todos example_model). \<not> completed t"
    by (simp add: example_model_fields)
  have ls: "list_all returns (listeners example_model)" by (simp add: example_model_fields)
  from clearCompleted_spec[of example_model] n ls
  have b: "todos ?c = todos example_model"
    and p: "persisted_and_notified example_model ?c"
    and r: "clearCompleted example_model = Inr ?c"
    by blast+
  have q: "nextId ?c = nextId example_model"
    by (simp add: clearCompleted_def)
  from p b q have c: "effects ?c =
     effects example_model @
       [Saved ''items'' (Items (todos example_model)), Saved ''nextId'' (Number 4), Called 0]"
    by (simp add: persisted_and_notified_def example_model_fields(2,3))
  from r b c have e: "\<exists>m'. clearCompleted example_model = Inr m' \<and>
      todos m' = todos example_model \<and>
      effects m' = effects example_model @
        [Saved ''items'' (Items (todos example_model)), Saved ''nextId'' (Number 4), Called 0]"
    by (intro exI[of _ ?c] conjI)
  from clearCompleted_spec[of "model_after (toggleComplete (JNum 2) example_model)"]
  have "todos (model_after (clearCompleted (model_after (toggleComplete (JNum 2) example_model)))) =
          filter (\<lambda>t. \<not> completed t)
            (todos (model_after (toggleComplete (JNum 2) example_model)))"
    by blast
  then have a: "map todo_id (todos (model_after (clearCompleted
      (model_after (toggleComplete (JNum 2) example_model))))) = [3]"
    by (simp add: toggleComplete_todos example_model_fields has_id_def)
  from n have n': "list_all (\<lambda>t. \<not> completed t) (todos example_model)"
    by (simp only: list_all_iff)
  from n' ls e a show ?thesis by (intro conjI)
qed

subsection \<open>Calls that raise\<close>

text \<open>
  Claim C8, as the code has it. On a model whose subscribed listeners are all
  functions that return, a call whose text argument is a string or a falsy
  value (\<^verbatim>\<open>null\<close>, \<^verbatim>\<open>undefined\<close>, \<^verbatim>\<open>false\<close>, \<^verbatim>\<open>0\<close>), with any value for the
  id, returns. Invalid input makes the call do nothing, whatever the listeners:
  with a falsy or blank text \<^verbatim>\<open>addTodo\<close> and \<^verbatim>\<open>updateTodo\<close> return the model
  they were given; with an id that no item has, so do \<^verbatim>\<open>toggleComplete\<close> and
  \<^verbatim>\<open>updateTodo\<close> (whatever its text), and \<^verbatim>\<open>deleteTodo\<close> leaves the list as
  it was. (The storage service is one whose \<^verbatim>\<open>save\<close> returns, as that of
  \<^verbatim>\<open>StorageService\<close> does, and the list holds items, as the model has it.)
\<close>

theorem no_raise_on_strings:
  "(texts_ok c \<and> list_all returns (listeners m) \<longrightarrow> (\<exists>m'. perform c m = Inr m')) \<and>
   (\<not> truthy txt \<or> (\<exists>s. txt = JStr s \<and> trim s = []) \<longrightarrow>
      perform (AddTodo txt now) m = Inr m \<and> perform (UpdateTodo v txt) m = Inr m) \<and>
   ((\<forall>t \<in> set (todos m). \<not> has_id v t) \<longrightarrow>
      perform (ToggleComplete v) m = Inr m \<and> perform (UpdateTodo v txt) m = Inr m \<and>
      todos (model_after (deleteTodo v m)) = todos m)"
proof (intro conjI impI)
  assume "texts_ok c \<and> list_all returns (listeners m)"
  then have ok: "texts_ok c" and ls: "list_all returns (listeners m)" by simp_all
  have n: "\<exists>m'. notify (save m1) = Inr m'" if "listeners m1 = listeners m" for m1
    using that ls notify_Inr_iff[of "save m1"] by simp
  show "\<exists>m'. perform c m = Inr m'"
  proof (cases "c")
    case (AddTodo x now)
    show ?thesis
    proof (cases "\<exists>s. x = JStr s \<and> trim s \<noteq> []")
      case True
      then obtain s where s: "x = JStr s" "trim s \<noteq> []" by blast
      from addTodo_added[OF s(2), of now m] n AddTodo s(1) show ?thesis by simp
    next
      case False
      with ok AddTodo have "perform c m = Inr m"
        by (cases x) (auto simp: addTodo_def)
      then show ?thesis by blast
    qed
  next
    case (ToggleComplete v)
    with n show ?thesis by (simp add: toggleComplete_def split: option.splits)
  next
    case (DeleteTodo v)
    with n show ?thesis by (simp add: deleteTodo_def)
  next
    case (UpdateTodo v x)
    show ?thesis
    proof (cases "(\<exists>s. x = JStr s \<and> trim s \<noteq> []) \<and> find (has_id v) (todos m) \<noteq> None")
      case True
      then obtain s t where s: "x = JStr s" "trim s \<noteq> []" "find (has_id v) (todos m) = Some t"
        by auto
      from updateTodo_found[OF s(3,2)] n UpdateTodo s(1) show ?thesis by simp
    next
      case False
      with ok UpdateTodo have "perform c m = Inr m"
        by (cases x) (auto simp: updateTodo_def split: option.splits)
      then show ?thesis by blast
    qed
  next
    case ClearCompleted
    with n show ?thesis by (simp add: clearCompleted_def)
  next
    case ClearAll
    with n show ?thesis by (simp add: clearAll_def)
  next
    case (Subscribe l)
    then show ?thesis by simp
  qed
next
  assume a: "\<not> truthy txt \<or> (\<exists>s. txt = JStr s \<and> trim s = [])"
  then show "perform (AddTodo txt now) m = Inr m"
    by (auto simp: addTodo_def)
  from a show "perform (UpdateTodo v txt) m = Inr m"
    by (auto simp: updateTodo_def split: option.splits)
next
  assume "\<forall>t \<in> set (todos m). \<not> has_id v t"
  then have n: "find (has_id v) (todos m) = None" by (simp add: find_None_iff)
  then show "perform (ToggleComplete v) m = Inr m" by (simp add: toggleComplete_def)
  from n show "perform (UpdateTodo v txt) m = Inr m" by (simp add: updateTodo_not_found)
  from n show "todos (model_after (deleteTodo v m)) = todos m"
    by (simp add: deleteTodo_def find_None_iff filter_id_conv)
qed

theorem no_raise_on_strings_witness:
  "texts_ok (AddTodo (JStr (ascii ''Task 4'')) (ascii ''t6'')) \<and>
   list_all returns (listeners example_model) \<and>
   (\<exists>m'. perform (AddTodo (JStr (ascii ''Task 4'')) (ascii ''t6'')) example_model = Inr m') \<and>
   truthy JNull = False \<and>
   perform (AddTodo JNull (ascii ''t6'')) example_model = Inr example_model \<and>
   perform (UpdateTodo (JNum 3) JNull) example_model = Inr example_model \<and>
   list_all (\<lambda>t. \<not> has_id (JNum 9) t) (todos example_model) \<and>
   perform (ToggleComplete (JNum 9)) example_model = Inr example_model \<and>
   perform (UpdateTodo (JNum 9) (JNum 5)) example_model = Inr example_model \<and>
   todos (model_after (deleteTodo (JNum 9) example_model)) = todos example_model"
proof -
  have t: "texts_ok (AddTodo (JStr (ascii ''Task 4'')) (ascii ''t6''))" by simp
  have ls: "list_all returns (listeners example_model)" by (simp add: example_model_fields)
  have f: "truthy JNull = False" by simp
  from no_raise_on_strings[of "AddTodo (JStr (ascii ''Task 4'')) (ascii ''t6'')" example_model
      JNull "ascii ''t6''" "JNum 3"] t ls f
  have a: "\<exists>m'. perform (AddTodo (JStr (ascii ''Task 4'')) (ascii ''t6'')) example_model = Inr m'"
    and b: "perform (AddTodo JNull (ascii ''t6'')) example_model = Inr example_model"
    and c: "perform (UpdateTodo (JNum 3) JNull) example_model = Inr example_model"
    by blast+
  have n: "\<forall>t \<in> set (todos example_model). \<not> has_id (JNum 9) t"
    by (simp add: example_model_fields has_id_def)
  from no_raise_on_strings[of "ClearAll" example_model "JNum 5" "ascii ''t6''" "JNum 9"] n
  have d: "perform (ToggleComplete (JNum 9)) example_model = Inr example_model"
    and e: "perform (UpdateTodo (JNum 9) (JNum 5)) example_model = Inr example_model"
    and g: "todos (model_after (deleteTodo (JNum 9) example_model)) = todos example_model"
    by blast+
  from n have n': "list_all (\<lambda>t. \<not> has_id (JNum 9) t) (todos example_model)"
    by (simp only: list_all_iff)
  from t ls a f b c n' d e g show ?thesis by (intro conjI)
qed

text \<open>
  Claim C8, as it is written (no call raises, whatever the input), fails:
  \<^verbatim>\<open>addTodo(5)\<close> passes the test \<^verbatim>\<open>!text\<close> and then calls \<^verbatim>\<open>trim\<close> on a
  number, before anything is assigned. And a listener that throws makes every
  call that notifies raise, after the list has been changed and saved.
\<close>

theorem addTodo_number_raises:
  "perform (AddTodo (JNum 5) (ascii ''t'')) fresh = Inl (TypeError, fresh) \<and>
   isl (perform add_a (subscribe (Throws 0) fresh)) \<and>
   map todo_id (todos (after add_a (subscribe (Throws 0) fresh))) = [1]"
proof -
  have a: "perform (AddTodo (JNum 5) (ascii ''t'')) fresh = Inl (TypeError, fresh)"
    by (simp add: addTodo_def)
  have "\<not> list_all returns (listeners (subscribe (Throws 0) fresh))"
    by (simp add: subscribe_def fresh_def)
  moreover have "trim (ascii ''a'') \<noteq> []" by (simp add: trim_def ascii_def is_white_space_def)
  ultimately have b: "isl (perform add_a (subscribe (Throws 0) fresh))"
    using notify_Inr_iff by (cases "perform add_a (subscribe (Throws 0) fresh)")
      (simp_all add: add_a_def addTodo_added)
  have c: "map todo_id (todos (after add_a (subscribe (Throws 0) fresh))) = [1]"
    by (simp add: after_add_a subscribe_def fresh_def)
  from a b c show ?thesis by (intro conjI)
qed

subsection \<open>What toggling and renaming leave alone\<close>

text \<open>
  Claim C9. \<^verbatim>\<open>toggleComplete\<close> and \<^verbatim>\<open>updateTodo\<close> keep the length of the list
  and the counter; every item with another id is the same after the call; and
  at every position the id and the creation time are the same, the text too
  after \<^verbatim>\<open>toggleComplete\<close>, the flag too after \<^verbatim>\<open>updateTodo\<close>. This holds of
  the model the call leaves, whether it returns or raises.
\<close>

theorem toggle_update_frame:
  "length (todos (model_after (toggleComplete v m))) = length (todos m) \<and>
   nextId (model_after (toggleComplete v m)) = nextId m \<and>
   (\<forall>k < length (todos m).
      todo_id (todos (model_after (toggleComplete v m)) ! k) = todo_id (todos m ! k) \<and>
      todo_text (todos (model_after (toggleComplete v m)) ! k) = todo_text (todos m ! k) \<and>
      createdAt (todos (model_after (toggleComplete v m)) ! k) = createdAt (todos m ! k) \<and>
      (\<not> has_id v (todos m ! k) \<longrightarrow>
         todos (model_after (toggleComplete v m)) ! k = todos m ! k)) \<and>
   length (todos (model_after (updateTodo v newText m))) = length (todos m) \<and>
   nextId (model_after (updateTodo v newText m)) = nextId m \<and>
   (\<forall>k < length (todos m).
      todo_id (todos (model_after (updateTodo v newText m)) ! k) = todo_id (todos m ! k) \<and>
      completed (todos (model_after (updateTodo v newText m)) ! k) = completed (todos m ! k) \<and>
      createdAt (todos (model_after (updateTodo v newText m)) ! k) = createdAt (todos m ! k) \<and>
      (\<not> has_id v (todos m ! k) \<longrightarrow>
         todos (model_after (updateTodo v newText m)) ! k = todos m ! k))"
proof (intro conjI allI impI)
  show "length (todos (model_after (toggleComplete v m))) = length (todos m)"
    by (simp add: toggleComplete_todos)
  show "nextId (model_after (toggleComplete v m)) = nextId m"
    by (rule toggleComplete_ids)
  from updateTodo_todos[of v newText m]
  show "length (todos (model_after (updateTodo v newText m))) = length (todos m)" by auto
  show "nextId (model_after (updateTodo v newText m)) = nextId m" by (rule updateTodo_ids)
next
  fix k assume k: "k < length (todos m)"
  show "todo_id (todos (model_after (toggleComplete v m)) ! k) = todo_id (todos m ! k)"
    unfolding toggleComplete_todos using k by (rule modify_first_frame) simp
  show "todo_text (todos (model_after (toggleComplete v m)) ! k) = todo_text (todos m ! k)"
    unfolding toggleComplete_todos using k by (rule modify_first_frame) simp
  show "createdAt (todos (model_after (toggleComplete v m)) ! k) = createdAt (todos m ! k)"
    unfolding toggleComplete_todos using k by (rule modify_first_frame) simp
  show "todos (model_after (toggleComplete v m)) ! k = todos m ! k"
    if "\<not> has_id v (todos m ! k)"
    unfolding toggleComplete_todos using k that by (rule modify_first_nth_other)
next
  fix k assume k: "k < length (todos m)"
  from updateTodo_todos[of v newText m] modify_first_frame[OF k, of todo_id]
  show "todo_id (todos (model_after (updateTodo v newText m)) ! k) = todo_id (todos m ! k)"
    by auto
  from updateTodo_todos[of v newText m] modify_first_frame[OF k, of completed]
  show "completed (todos (model_after (updateTodo v newText m)) ! k) = completed (todos m ! k)"
    by auto
  from updateTodo_todos[of v newText m] modify_first_frame[OF k, of createdAt]
  show "createdAt (todos (model_after (updateTodo v newText m)) ! k) = createdAt (todos m ! k)"
    by auto
  show "todos (model_after (updateTodo v newText m)) ! k = todos m ! k"
    if "\<not> has_id v (todos m ! k)"
    using updateTodo_todos[of v newText m]
      modify_first_nth_other[of k "todos m" "has_id v", OF k that]
    by auto
qed

theorem toggle_update_frame_witness:
  "todos (model_after (toggleComplete (JNum 3) example_model)) ! 0 = todos example_model ! 0 \<and>
   todo_text (todos (model_after (toggleComplete (JNum 3) example_model)) ! 1) = ascii ''New'' \<and>
   (\<exists>m'. updateTodo (JNum 3) (JStr (ascii ''Newer'')) example_model = Inr m' \<and>
      todos m' ! 0 = todos example_model ! 0 \<and>
      completed (todos m' ! 1) = False \<and>
      createdAt (todos m' ! 1) = ascii ''t5'')"
proof -
  let ?u = "model_after (updateTodo (JNum 3) (JStr (ascii ''Newer'')) example_model)"
  have k0: "0 < length (todos example_model)" and k1: "1 < length (todos example_model)"
    by (simp_all add: example_model_fields)
  have n0: "\<not> has_id (JNum 3) (todos example_model ! 0)"
    by (simp add: example_model_fields has_id_def)
  have f1: "todo_text (todos example_model ! 1) = ascii ''New''"
    "completed (todos example_model ! 1) = False"
    "createdAt (todos example_model ! 1) = ascii ''t5''"
    by (simp_all add: example_model_fields)
  have m': "updateTodo (JNum 3) (JStr (ascii ''Newer'')) example_model = Inr ?u"
    by (simp add: example_model_fields eval_defs)
  note fr = toggle_update_frame[of "JNum 3" example_model "JStr (ascii ''Newer'')"]
  from fr k0 n0
  have a: "todos (model_after (toggleComplete (JNum 3) example_model)) ! 0 = todos example_model ! 0"
    by blast
  from fr k1 f1(1)
  have b: "todo_text (todos (model_after (toggleComplete (JNum 3) example_model)) ! 1) = ascii ''New''"
    by metis
  from fr k0 n0 have c: "todos ?u ! 0 = todos example_model ! 0" by blast
  from fr k1 f1(2) have d: "completed (todos ?u ! 1) = False" by metis
  from fr k1 f1(3) have e: "createdAt (todos ?u ! 1) = ascii ''t5''" by metis
  from m' c d e have "\<exists>m'. updateTodo (JNum 3) (JStr (ascii ''Newer'')) example_model = Inr m' \<and>
      todos m' ! 0 = todos example_model ! 0 \<and>
      completed (todos m' ! 1) = False \<and>
      createdAt (todos m' ! 1) = ascii ''t5''" by (intro exI[of _ ?u] conjI)
  with a b show ?thesis by (intro conjI)
qed

end
